theory Spec2Isabelle
  imports Complex_Main "HOL-Library.AList" "HOL-Library.Char_ord" "HOL-Library.List_Lexorder"
begin

section \<open>Values\<close>

text \<open>
  The values \<^verbatim>\<open>JSON.parse\<close> produces. An object is the list of its own properties in
  property order; a parsed object never has two properties of one name. Numbers are kept
  as the rational they denote (\<^verbatim>\<open>-0\<close> and \<^verbatim>\<open>0\<close> are one key of a \<^verbatim>\<open>Map\<close>, both are
  falsy and both print as \<^verbatim>\<open>0\<close>); a literal that overflows a double is not covered.
  A property or variable that is \<^verbatim>\<open>undefined\<close> is \<open>None\<close> of \<open>json option\<close>.
\<close>

datatype json =
    JNull
  | JBool bool
  | JNum rat
  | JStr string
  | JArr "json list"
  | JObj "(string \<times> json) list"

type_synonym props = "(string \<times> json) list"

text \<open>What is thrown somewhere in \<^verbatim>\<open>server.js\<close>.\<close>

datatype error = SyntaxError | TypeError | SendError | StoreError

text \<open>JavaScript truthiness, as \<^verbatim>\<open>!content\<close> tests it.\<close>

fun truthy :: "json option \<Rightarrow> bool" where
  "truthy None = False"
| "truthy (Some JNull) = False"
| "truthy (Some (JBool b)) = b"
| "truthy (Some (JNum n)) = (n \<noteq> 0)"
| "truthy (Some (JStr s)) = (s \<noteq> [])"
| "truthy (Some (JArr xs)) = True"
| "truthy (Some (JObj fs)) = True"

section \<open>The socket hub\<close>

text \<open>
  A connection is the \<^verbatim>\<open>ws\<close> object of one \<^verbatim>\<open>wss.on('connection')\<close> callback; only its
  identity matters.

  \<^verbatim>\<open>clients\<close> is a \<^verbatim>\<open>Map\<close>. Its keys are compared by SameValueZero: primitives by value,
  objects and arrays by identity. Every \<^verbatim>\<open>JSON.parse\<close> allocates its objects anew, so an
  object or array used as a key gets the identity of the frame it came in (\<open>KRef\<close>); the
  hub counts the frames it has parsed to hand those identities out. The \<^verbatim>\<open>Map\<close> keeps
  insertion order: it is the list of its entries, \<^verbatim>\<open>set\<close> is \<open>AList.update\<close> (overwrite in
  place, else append), \<^verbatim>\<open>get\<close> is \<open>map_of\<close> and \<^verbatim>\<open>delete\<close> is \<open>AList.delete\<close>.
\<close>

type_synonym conn = nat

datatype mkey = KUndefined | KNull | KBool bool | KNum rat | KStr string | KRef nat

fun key_of :: "nat \<Rightarrow> json option \<Rightarrow> mkey" where
  "key_of oid None = KUndefined"
| "key_of oid (Some JNull) = KNull"
| "key_of oid (Some (JBool b)) = KBool b"
| "key_of oid (Some (JNum n)) = KNum n"
| "key_of oid (Some (JStr s)) = KStr s"
| "key_of oid (Some (JArr xs)) = KRef oid"
| "key_of oid (Some (JObj fs)) = KRef oid"

text \<open>The keys that are compared by value: everything but an array or an object.\<close>

fun by_value :: "json option \<Rightarrow> bool" where
  "by_value (Some (JArr xs)) = False"
| "by_value (Some (JObj fs)) = False"
| "by_value other = True"

record hub =
  clients :: "(mkey \<times> conn) list"
  open_conns :: "conn set"
  parsed_frames :: nat

definition init_hub :: hub where
  "init_hub = \<lparr>clients = [], open_conns = {}, parsed_frames = 0\<rparr>"

text \<open>
  What a handler did: the hub it leaves, the calls of \<^verbatim>\<open>ws.send\<close> it made, in order, and
  what it caught and wrote to \<^verbatim>\<open>console.error\<close>. \<^verbatim>\<open>send\<close> belongs to the \<^verbatim>\<open>ws\<close> library;
  whether it throws for a connection is the parameter \<open>throws\<close>. A call that throws
  delivers nothing.
\<close>

record reaction =
  hub_after :: hub
  send_calls :: "(conn \<times> json) list"
  logged :: "error list"

definition delivered :: "(conn \<Rightarrow> bool) \<Rightarrow> (conn \<times> json) list \<Rightarrow> (conn \<times> json) list" where
  "delivered throws calls = filter (\<lambda>(c, p). \<not> throws c) calls"

definition quiet :: "hub \<Rightarrow> reaction" where
  "quiet st = \<lparr>hub_after = st, send_calls = [], logged = []\<rparr>"

definition caught :: "hub \<Rightarrow> error \<Rightarrow> reaction" where
  "caught st e = \<lparr>hub_after = st, send_calls = [], logged = [e]\<rparr>"

text \<open>
  \<^verbatim>\<open>{...parsedMessage, sender: parsedMessage.userKey}\<close>: the own properties, then \<^verbatim>\<open>sender\<close>
  written over an existing property of that name or appended. Its value is \<^verbatim>\<open>undefined\<close>
  when the frame has no \<^verbatim>\<open>userKey\<close>.
\<close>

definition spread_sender :: "props \<Rightarrow> json option \<Rightarrow> (string \<times> json option) list" where
  "spread_sender fs u = AList.update ''sender'' u (map (\<lambda>(k, v). (k, Some v)) fs)"

text \<open>
  \<^verbatim>\<open>JSON.stringify\<close> of an object leaves out the properties whose value is \<^verbatim>\<open>undefined\<close>.
  The text sent is kept as the value it denotes.
\<close>

definition JSON_stringify :: "(string \<times> json option) list \<Rightarrow> json" where
  "JSON_stringify ps = JObj (List.map_filter (\<lambda>(k, v). map_option (Pair k) v) ps)"

definition signalling :: "json option \<Rightarrow> bool" where
  "signalling ty \<longleftrightarrow>
     ty = Some (JStr ''offer'') \<or> ty = Some (JStr ''answer'') \<or> ty = Some (JStr ''candidate'')"

text \<open>
  The body of the \<^verbatim>\<open>try\<close> of \<^verbatim>\<open>ws.on('message')\<close> after the parse. What the spec calls
  the kind of a frame or of an event is the property \<^verbatim>\<open>type\<close> in the code. Reading \<^verbatim>\<open>.type\<close> of
  \<^verbatim>\<open>null\<close> throws a TypeError; a number, a boolean, a string or an array has no property
  \<^verbatim>\<open>type\<close>, so neither branch is taken. \<open>oid\<close> is the identity of the objects of this
  frame. A throwing \<^verbatim>\<open>send\<close> is caught by the same \<^verbatim>\<open>catch\<close>.
\<close>

fun route :: "(conn \<Rightarrow> bool) \<Rightarrow> hub \<Rightarrow> nat \<Rightarrow> conn \<Rightarrow> json \<Rightarrow> reaction" where
  "route throws st oid ws JNull = caught st TypeError"
| "route throws st oid ws (JObj fs) =
     (if map_of fs ''type'' = Some (JStr ''register'') then
        quiet (st\<lparr>clients := AList.update (key_of oid (map_of fs ''userKey'')) ws (clients st)\<rparr>)
      else if signalling (map_of fs ''type'') then
        (case map_of (clients st) (key_of oid (map_of fs ''target'')) of
           None \<Rightarrow> quiet st
         | Some targetClient \<Rightarrow>
             \<lparr>hub_after = st,
              send_calls =
                [(targetClient, JSON_stringify (spread_sender fs (map_of fs ''userKey'')))],
              logged = (if throws targetClient then [SendError] else [])\<rparr>)
      else quiet st)"
| "route throws st oid ws other = quiet st"

text \<open>
  \<^verbatim>\<open>ws.on('message')\<close>. The frame is given by what \<^verbatim>\<open>JSON.parse\<close> makes of it: \<open>None\<close> when
  the parse throws. The whole body is inside \<^verbatim>\<open>try\<close>, so the handler itself never throws.
\<close>

definition on_message :: "(conn \<Rightarrow> bool) \<Rightarrow> hub \<Rightarrow> conn \<Rightarrow> json option \<Rightarrow> reaction" where
  "on_message throws st ws parsed =
     (case parsed of
        None \<Rightarrow> caught st SyntaxError
      | Some parsedMessage \<Rightarrow>
          route throws (st\<lparr>parsed_frames := Suc (parsed_frames st)\<rparr>) (parsed_frames st)
            ws parsedMessage)"

text \<open>
  \<^verbatim>\<open>wss.on('connection')\<close> only installs the two handlers; the server of the \<^verbatim>\<open>ws\<close> library
  holds the socket open from then on.
\<close>

definition on_connection :: "hub \<Rightarrow> conn \<Rightarrow> hub" where
  "on_connection st ws = st\<lparr>open_conns := insert ws (open_conns st)\<rparr>"

text \<open>
  \<^verbatim>\<open>ws.on('close')\<close>: \<^verbatim>\<open>clients.forEach\<close> visits the entries in order and deletes, by key,
  each one whose value is the closing socket. \<open>close_forEach ws es m\<close> has the entries
  \<open>es\<close> still to visit and the map \<open>m\<close> as it is by now.
\<close>

fun close_forEach :: "conn \<Rightarrow> (mkey \<times> conn) list \<Rightarrow> (mkey \<times> conn) list \<Rightarrow> (mkey \<times> conn) list" where
  "close_forEach ws [] m = m"
| "close_forEach ws ((userKey, client) # es) m =
     close_forEach ws es (if client = ws then AList.delete userKey m else m)"

definition on_close :: "hub \<Rightarrow> conn \<Rightarrow> hub" where
  "on_close st ws =
     st\<lparr>clients := close_forEach ws (clients st) (clients st),
        open_conns := open_conns st - {ws}\<rparr>"

text \<open>
  \<^verbatim>\<open>broadcast\<close>: \<^verbatim>\<open>clients.forEach\<close> calls \<^verbatim>\<open>send\<close> on the value of every entry, in order,
  with nothing around the call: the first \<^verbatim>\<open>send\<close> that throws ends the loop and the
  error leaves \<open>broadcast\<close>. The result is the calls made and the error thrown, if any.
\<close>

fun forEach_send :: "(conn \<Rightarrow> bool) \<Rightarrow> (mkey \<times> conn) list \<Rightarrow> json \<Rightarrow> (conn \<times> json) list \<times> error option" where
  "forEach_send throws [] text = ([], None)"
| "forEach_send throws ((userKey, ws) # es) text =
     (if throws ws then ([(ws, text)], Some SendError)
      else (case forEach_send throws es text of (calls, e) \<Rightarrow> ((ws, text) # calls, e)))"

definition broadcast :: "(conn \<Rightarrow> bool) \<Rightarrow> hub \<Rightarrow> props \<Rightarrow> (conn \<times> json) list \<times> error option" where
  "broadcast throws st data = forEach_send throws (clients st) (JSON_stringify (map (\<lambda>(k, v). (k, Some v)) data))"

text \<open>
  The hub as it moves: a socket connects, a frame arrives on a socket, a socket closes.
\<close>

datatype event = Connect conn | Frame conn "json option" | Close conn

fun step :: "(conn \<Rightarrow> bool) \<Rightarrow> hub \<Rightarrow> event \<Rightarrow> hub" where
  "step throws st (Connect ws) = on_connection st ws"
| "step throws st (Frame ws parsed) = hub_after (on_message throws st ws parsed)"
| "step throws st (Close ws) = on_close st ws"

definition run :: "(conn \<Rightarrow> bool) \<Rightarrow> hub \<Rightarrow> event list \<Rightarrow> hub" where
  "run throws st evs = foldl (step throws) st evs"

section \<open>The message store\<close>

text \<open>
  Modelled from the spec: \<^verbatim>\<open>redisClient.js\<close> and the Redis server behind it are not among
  the sources. The spec's Store Adapter gives an atomic increment of a counter, hash-style
  record write and read, and a key-existence check. A hash is the list of its fields;
  writing fields leaves the other fields of the hash as they are. The store either
  answers, or its calls reject (\<open>alive\<close>). A field value is stored as the text the client
  library makes of it (\<open>redis_arg\<close>): a string as it is, \<^verbatim>\<open>null\<close> as the empty string, a
  natural number below \<open>10 ^ 21\<close> as its decimal digits, a boolean as its name, an object as
  \<^verbatim>\<open>[object Object]\<close>. The text of any other number and of an array is not covered: such
  a value is kept as it is.
\<close>

text \<open>
  The decimal digits of a number, as \<^verbatim>\<open>String\<close> and the template \<^verbatim>\<open>`message:${id}`\<close>
  print it.
\<close>

fun decimal :: "nat \<Rightarrow> string" where
  "decimal n =
     (if n < 10 then [char_of (48 + n)]
      else decimal (n div 10) @ [char_of (48 + n mod 10)])"

declare decimal.simps [simp del]

fun redis_arg :: "json \<Rightarrow> json" where
  "redis_arg JNull = JStr []"
| "redis_arg (JBool b) = JStr (if b then ''true'' else ''false'')"
| "redis_arg (JNum n) =
     (if n = of_nat (nat \<lfloor>n\<rfloor>) \<and> n < 10 ^ 21 then JStr (decimal (nat \<lfloor>n\<rfloor>)) else JNum n)"
| "redis_arg (JStr s) = JStr s"
| "redis_arg (JArr xs) = JArr xs"
| "redis_arg (JObj fs) = JStr ''[object Object]''"

record store =
  alive :: bool
  message_id :: nat
  hashes :: "(string \<times> props) list"

definition redis_incr :: "store \<Rightarrow> error + nat \<times> store" where
  "redis_incr db =
     (if alive db then Inr (Suc (message_id db), db\<lparr>message_id := Suc (message_id db)\<rparr>)
      else Inl StoreError)"


definition redis_hmset :: "store \<Rightarrow> string \<Rightarrow> props \<Rightarrow> error + store" where
  "redis_hmset db key flds =
     (if alive db then
        Inr (db\<lparr>hashes :=
          AList.update key
            (fold (\<lambda>(f, v). AList.update f (redis_arg v)) flds
               (case map_of (hashes db) key of None \<Rightarrow> [] | Some h \<Rightarrow> h))
            (hashes db)\<rparr>)
      else Inl StoreError)"


section \<open>The HTTP handlers that notify the hub\<close>

text \<open>
  \<^verbatim>\<open>new Date().toISOString()\<close> is the parameter \<open>timestamp\<close>, resp. \<open>updatedAt\<close>: the string
  the clock gives when the handler runs. These strings have one fixed width, so that the
  order of two of them as strings is the order of the instants they name.
\<close>

definition createMessage :: "store \<Rightarrow> string \<Rightarrow> json \<Rightarrow> json \<Rightarrow> json \<Rightarrow> error + props \<times> store" where
  "createMessage db timestamp sender_id receiver_id content =
     (case redis_incr db of
        Inl e \<Rightarrow> Inl e
      | Inr (id', db1) \<Rightarrow>
          (let messageData =
                 [(''id'', JNum (of_nat id')),
                  (''sender_id'', sender_id),
                  (''receiver_id'', receiver_id),
                  (''content'', content),
                  (''created_at'', JStr timestamp),
                  (''updated_at'', JNull)]
           in case redis_hmset db1 (''message:'' @ decimal id') messageData of
                Inl e \<Rightarrow> Inl e
              | Inr db2 \<Rightarrow> Inr (messageData, db2)))"


text \<open>
  What a request handler did: the response, the store it leaves and the calls of
  \<^verbatim>\<open>ws.send\<close> made by \<open>broadcast\<close>. An error thrown anywhere in the handler, by the store
  or by \<open>broadcast\<close>, reaches its \<^verbatim>\<open>catch\<close>, which answers 500; what was written to the
  store before stays written.
\<close>

record served =
  status :: nat
  body :: json
  store_after :: store
  pushed :: "(conn \<times> json) list"

definition error_body :: "string \<Rightarrow> json" where
  "error_body msg = JObj [(''error'', JStr msg)]"

definition internal_error :: "store \<Rightarrow> (conn \<times> json) list \<Rightarrow> served" where
  "internal_error db calls =
     \<lparr>status = 500, body = error_body ''Internal server error'', store_after = db,
      pushed = calls\<rparr>"

definition post_messages :: "(conn \<Rightarrow> bool) \<Rightarrow> hub \<Rightarrow> store \<Rightarrow> string \<Rightarrow> props \<Rightarrow> served" where
  "post_messages throws st db timestamp req_body =
     (case (map_of req_body ''sender_id'', map_of req_body ''receiver_id'',
            map_of req_body ''content'') of
        (Some sender_id, Some receiver_id, Some content) \<Rightarrow>
          if \<not> truthy (Some sender_id) \<or> \<not> truthy (Some receiver_id) \<or> \<not> truthy (Some content)
          then \<lparr>status = 400,
                body = error_body ''sender_id, receiver_id, and content are required'',
                store_after = db, pushed = []\<rparr>
          else
            (case createMessage db timestamp sender_id receiver_id content of
               Inl e \<Rightarrow> internal_error db []
             | Inr (messageData, db') \<Rightarrow>
                 (case broadcast throws st
                         [(''type'', JStr ''new_message''), (''data'', JObj messageData)] of
                    (calls, Some e) \<Rightarrow> internal_error db' calls
                  | (calls, None) \<Rightarrow>
                      \<lparr>status = 201,
                       body = JObj [(''message'', JStr ''Message created''),
                                    (''data'', JObj messageData)],
                       store_after = db', pushed = calls\<rparr>))
      | _ \<Rightarrow>
          \<lparr>status = 400,
           body = error_body ''sender_id, receiver_id, and content are required'',
           store_after = db, pushed = []\<rparr>)"







text \<open>Two behaviours of \<^verbatim>\<open>send\<close>: it never throws, or it throws on one socket.\<close>

definition no_throw :: "conn \<Rightarrow> bool" where
  "no_throw c = False"

definition throws_on :: "conn \<Rightarrow> conn \<Rightarrow> bool" where
  "throws_on bad c = (c = bad)"

section \<open>Example values\<close>

text \<open>
  The scenario of the spec: connection 1 registers as \<open>u1\<close>, connection 2 is open and
  sends signalling frames as \<open>u2\<close>.
\<close>

definition register_u1 :: props where
  "register_u1 = [(''type'', JStr ''register''), (''userKey'', JStr ''u1'')]"

definition offer_to_u1 :: props where
  "offer_to_u1 =
     [(''type'', JStr ''offer''), (''userKey'', JStr ''u2''), (''target'', JStr ''u1''),
      (''sdp'', JStr ''v=0'')]"

definition offer_to_u9 :: props where
  "offer_to_u9 =
     [(''type'', JStr ''offer''), (''userKey'', JStr ''u2''), (''target'', JStr ''u9'')]"

definition spoofed_offer :: props where
  "spoofed_offer =
     [(''type'', JStr ''offer''), (''sender'', JStr ''admin''), (''userKey'', JStr ''u2''),
      (''target'', JStr ''u1'')]"

definition ping_frame :: props where
  "ping_frame = [(''type'', JStr ''ping''), (''userKey'', JStr ''u2'')]"

definition hub_u1 :: hub where
  "hub_u1 = run no_throw init_hub [Connect 1, Frame 1 (Some (JObj register_u1)), Connect 2]"

text \<open>Keys \<open>A\<close> and \<open>B\<close>, registered by one connection or by several.\<close>

definition register_A :: props where
  "register_A = [(''type'', JStr ''register''), (''userKey'', JStr ''A'')]"

definition register_B :: props where
  "register_B = [(''type'', JStr ''register''), (''userKey'', JStr ''B'')]"

definition answer_to_A :: props where
  "answer_to_A =
     [(''type'', JStr ''answer''), (''userKey'', JStr ''B''), (''target'', JStr ''A'')]"

definition hub_AB :: hub where
  "hub_AB = run no_throw init_hub
      [Connect 1, Frame 1 (Some (JObj register_A)), Connect 2, Frame 2 (Some (JObj register_u1)),
       Frame 1 (Some (JObj register_B)), Connect 3]"

definition hub_three :: hub where
  "hub_three = run no_throw init_hub
      [Connect 1, Frame 1 (Some (JObj register_A)), Connect 2, Frame 2 (Some (JObj register_u1)),
       Connect 3, Frame 3 (Some (JObj register_B))]"

text \<open>A broadcast event, a request body for each handler, and two stores.\<close>

definition deleted_7 :: props where
  "deleted_7 = [(''type'', JStr ''delete_message''), (''data'', JObj [(''id'', JStr ''7'')])]"

definition hi_body :: props where
  "hi_body =
     [(''sender_id'', JStr ''u1''), (''receiver_id'', JStr ''u2''), (''content'', JStr ''hi'')]"


definition db0 :: store where
  "db0 = \<lparr>alive = True, message_id = 0, hashes = []\<rparr>"


section \<open>Properties of the model\<close>

subsection \<open>The example values, evaluated\<close>

lemma hub_u1_eq:
  "hub_u1 = \<lparr>clients = [(KStr ''u1'', 1)], open_conns = {1, 2}, parsed_frames = 1\<rparr>"
  by (simp add: hub_u1_def register_u1_def run_def init_hub_def on_connection_def
      on_message_def quiet_def insert_commute)

lemma hub_AB_eq:
  "hub_AB = \<lparr>clients = [(KStr ''A'', 1), (KStr ''u1'', 2), (KStr ''B'', 1)],
             open_conns = {1, 2, 3}, parsed_frames = 3\<rparr>"
  by (simp add: hub_AB_def run_def init_hub_def on_connection_def on_message_def quiet_def
      register_A_def register_B_def register_u1_def insert_commute)

lemma hub_three_eq:
  "hub_three = \<lparr>clients = [(KStr ''A'', 1), (KStr ''u1'', 2), (KStr ''B'', 3)],
                open_conns = {1, 2, 3}, parsed_frames = 3\<rparr>"
  by (simp add: hub_three_def run_def init_hub_def on_connection_def on_message_def quiet_def
      register_A_def register_B_def register_u1_def insert_commute)


subsection \<open>What the store keeps\<close>








subsection \<open>Objects, the registry as a list, the close loop\<close>

lemma map_of_stringify:
  "distinct (map fst ps) \<Longrightarrow>
   map_of (List.map_filter (\<lambda>(k, v). map_option (Pair k) v) ps) f = Option.bind (map_of ps f) id"
proof (induction ps)
  case Nil
  then show ?case by simp
next
  case (Cons p ps)
  obtain k v where p: "p = (k, v)" by (cases p)
  show ?case
  proof (cases v)
    case None
    have "f = k \<Longrightarrow> map_of (List.map_filter (\<lambda>(k, v). map_option (Pair k) v) ps) f = None"
      using Cons.prems p
      by (auto simp: map_of_eq_None_iff List.map_filter_def image_iff split: option.splits)
    with None Cons p show ?thesis by auto
  next
    case (Some a)
    with Cons p show ?thesis by auto
  qed
qed

lemma stringify_defined: "JSON_stringify (map (\<lambda>(k, v). (k, Some v)) data) = JObj data"
  unfolding JSON_stringify_def by (induction data) auto

lemma forwarded_field:
  assumes "distinct (map fst fs)" and "JSON_stringify (spread_sender fs u) = JObj out"
  shows "map_of out f = (if f = ''sender'' then u else map_of fs f)"
proof -
  let ?ps = "spread_sender fs u"
  have keys: "map fst (map (\<lambda>(k, v). (k, Some v)) fs) = map fst fs"
    by (induction fs) auto
  have "distinct (map fst (map (\<lambda>(k, v). (k, Some v)) fs))"
    unfolding keys using assms(1) .
  then have d: "distinct (map fst ?ps)"
    unfolding spread_sender_def by (rule AList.distinct_update)
  have m: "map_of ?ps f = (if f = ''sender'' then Some u else map_option Some (map_of fs f))"
    unfolding spread_sender_def by (simp add: AList.update_conv' map_of_map)
  have "out = List.map_filter (\<lambda>(k, v). map_option (Pair k) v) ?ps"
    using assms(2) by (simp add: JSON_stringify_def)
  then have "map_of out f = Option.bind (map_of ?ps f) id"
    using map_of_stringify [OF d] by simp
  with m show ?thesis by (cases "map_of fs f") auto
qed

lemma key_of_by_value:
  "by_value k \<Longrightarrow> key_of oid u = key_of oid' k \<longleftrightarrow> u = k"
  by (cases "(oid, u)" rule: key_of.cases; cases "(oid', k)" rule: key_of.cases) auto

lemma close_forEach_filter:
  "close_forEach ws es m = filter (\<lambda>(k, c). (k, ws) \<notin> set es) m"
proof (induction es arbitrary: m)
  case Nil
  then show ?case by simp
next
  case (Cons e es)
  obtain k c where e: "e = (k, c)" by (cases e)
  show ?case unfolding e
    by (auto simp: Cons.IH AList.delete_eq intro!: filter_cong)
qed

lemma close_forEach_self:
  assumes "distinct (map fst m)"
  shows "close_forEach ws m m = filter (\<lambda>(k, c). c \<noteq> ws) m"
proof -
  have "\<And>k c. (k, c) \<in> set m \<Longrightarrow> ((k, ws) \<notin> set m) = (c \<noteq> ws)"
    using assms by (meson eq_key_imp_eq_value)
  then show ?thesis unfolding close_forEach_filter
    by (auto intro!: filter_cong)
qed

lemma on_close_clients:
  "distinct (map fst (clients st)) \<Longrightarrow>
   clients (on_close st ws) = filter (\<lambda>(k, c). c \<noteq> ws) (clients st)"
  by (simp add: on_close_def close_forEach_self)

subsection \<open>One frame\<close>

lemma signalling_not_register: "signalling ty \<Longrightarrow> ty \<noteq> Some (JStr ''register'')"
  by (auto simp: signalling_def)

lemma relay_found:
  assumes "signalling (map_of fs ''type'')"
      and "map_of (clients st) (key_of (parsed_frames st) (map_of fs ''target'')) = Some tc"
  shows "on_message throws st ws (Some (JObj fs)) =
           \<lparr>hub_after = st\<lparr>parsed_frames := Suc (parsed_frames st)\<rparr>,
            send_calls = [(tc, JSON_stringify (spread_sender fs (map_of fs ''userKey'')))],
            logged = (if throws tc then [SendError] else [])\<rparr>"
  using assms signalling_not_register [OF assms(1)] by (simp add: on_message_def)

lemma relay_not_found:
  assumes "signalling (map_of fs ''type'')"
      and "map_of (clients st) (key_of (parsed_frames st) (map_of fs ''target'')) = None"
  shows "on_message throws st ws (Some (JObj fs))
           = quiet (st\<lparr>parsed_frames := Suc (parsed_frames st)\<rparr>)"
  using assms signalling_not_register [OF assms(1)] by (simp add: on_message_def)

lemma register_frame:
  assumes "map_of fs ''type'' = Some (JStr ''register'')"
  shows "on_message throws st ws (Some (JObj fs)) =
     quiet (st\<lparr>parsed_frames := Suc (parsed_frames st),
       clients := AList.update (key_of (parsed_frames st) (map_of fs ''userKey'')) ws (clients st)\<rparr>)"
  using assms by (simp add: on_message_def)

lemma unknown_kind_quiet:
  assumes "map_of fs ''type'' \<noteq> Some (JStr ''register'')" and "\<not> signalling (map_of fs ''type'')"
  shows "on_message throws st ws (Some (JObj fs))
           = quiet (st\<lparr>parsed_frames := Suc (parsed_frames st)\<rparr>)"
  using assms by (simp add: on_message_def)

lemma not_register_clients:
  assumes "\<forall>fs. parsed = Some (JObj fs) \<longrightarrow> map_of fs ''type'' \<noteq> Some (JStr ''register'')"
  shows "clients (hub_after (on_message throws st ws parsed)) = clients st"
proof (cases parsed)
  case None
  then show ?thesis by (simp add: on_message_def caught_def)
next
  case (Some pm)
  then show ?thesis using assms
    by (cases pm) (auto simp: on_message_def caught_def quiet_def split: option.splits)
qed

subsection \<open>Sequences of events\<close>

lemma distinct_step:
  "distinct (map fst (clients st)) \<Longrightarrow> distinct (map fst (clients (step throws st ev)))"
proof (cases ev)
  case (Connect ws)
  assume "distinct (map fst (clients st))"
  then show ?thesis using Connect by (simp add: on_connection_def)
next
  case (Frame ws parsed)
  assume d: "distinct (map fst (clients st))"
  show ?thesis
  proof (cases "\<exists>fs. parsed = Some (JObj fs) \<and> map_of fs ''type'' = Some (JStr ''register'')")
    case True
    then show ?thesis using d Frame
      by (auto simp: register_frame quiet_def AList.distinct_update)
  next
    case False
    then have "clients (hub_after (on_message throws st ws parsed)) = clients st"
      by (intro not_register_clients) auto
    then show ?thesis using d Frame by simp
  qed
next
  case (Close ws)
  assume d: "distinct (map fst (clients st))"
  then show ?thesis using Close
    by (simp add: on_close_clients distinct_map_filter)
qed

lemma distinct_run:
  "distinct (map fst (clients st)) \<Longrightarrow> distinct (map fst (clients (run throws st evs)))"
  unfolding run_def by (induction evs arbitrary: st) (auto simp: distinct_step)

lemma step_keeps_entry:
  assumes "distinct (map fst (clients st))"
      and "by_value k"
      and "map_of (clients st) (key_of 0 k) = Some c2"
      and "e \<noteq> Close c2"
      and "\<forall>ws r. e = Frame ws (Some (JObj r)) \<longrightarrow> map_of r ''type'' = Some (JStr ''register'')
             \<longrightarrow> map_of r ''userKey'' \<noteq> k"
  shows "map_of (clients (step throws st e)) (key_of 0 k) = Some c2"
proof (cases e)
  case (Connect ws)
  then show ?thesis using assms(3) by (simp add: on_connection_def)
next
  case (Frame ws parsed)
  show ?thesis
  proof (cases "\<exists>fs. parsed = Some (JObj fs) \<and> map_of fs ''type'' = Some (JStr ''register'')")
    case True
    then obtain fs where fs: "parsed = Some (JObj fs)" "map_of fs ''type'' = Some (JStr ''register'')"
      by blast
    with assms(5) Frame have "map_of fs ''userKey'' \<noteq> k" by simp
    then have "key_of (parsed_frames st) (map_of fs ''userKey'') \<noteq> key_of 0 k"
      using assms(2) by (simp add: key_of_by_value)
    then show ?thesis using Frame fs assms(3)
      by (simp add: register_frame quiet_def AList.update_conv')
  next
    case False
    then have "clients (hub_after (on_message throws st ws parsed)) = clients st"
      by (intro not_register_clients) auto
    then show ?thesis using Frame assms(3) by simp
  qed
next
  case (Close ws)
  with assms(4) have "c2 \<noteq> ws" by simp
  then have "map_of (filter (\<lambda>(k, c). c \<noteq> ws) (clients st)) (key_of 0 k) = Some c2"
    using assms(3) by (intro map_of_filter_in) auto
  then show ?thesis using Close assms(1) by (simp add: on_close_clients)
qed

lemma run_keeps_entry:
  assumes "distinct (map fst (clients st))"
      and "by_value k"
      and "map_of (clients st) (key_of 0 k) = Some c2"
      and "\<forall>e \<in> set evs. e \<noteq> Close c2 \<and>
             (\<forall>ws r. e = Frame ws (Some (JObj r)) \<longrightarrow> map_of r ''type'' = Some (JStr ''register'')
                \<longrightarrow> map_of r ''userKey'' \<noteq> k)"
  shows "map_of (clients (run throws st evs)) (key_of 0 k) = Some c2"
  using assms
proof (induction evs arbitrary: st)
  case Nil
  then show ?case by (simp add: run_def)
next
  case (Cons e evs)
  have d: "distinct (map fst (clients (step throws st e)))"
    using Cons.prems(1) by (rule distinct_step)
  have m: "map_of (clients (step throws st e)) (key_of 0 k) = Some c2"
    using Cons.prems by (intro step_keeps_entry) auto
  have "map_of (clients (run throws (step throws st e) evs)) (key_of 0 k) = Some c2"
    using Cons.prems(2,4) by (intro Cons.IH [OF d _ m]) auto
  then show ?case by (simp add: run_def)
qed

lemma key_of_KRef: "key_of oid u = KRef n \<Longrightarrow> n = oid"
  by (cases "(oid, u)" rule: key_of.cases) auto

lemma parsed_frames_on_message:
  "parsed_frames st \<le> parsed_frames (hub_after (on_message throws st ws parsed))"
proof (cases parsed)
  case None
  then show ?thesis by (simp add: on_message_def caught_def)
next
  case (Some pm)
  then show ?thesis
    by (cases pm) (auto simp: on_message_def caught_def quiet_def split: option.splits)
qed

lemma refs_below_step:
  assumes "distinct (map fst (clients st))"
      and "\<forall>n. KRef n \<in> fst ` set (clients st) \<longrightarrow> n < parsed_frames st"
  shows "\<forall>n. KRef n \<in> fst ` set (clients (step throws st ev)) \<longrightarrow>
           n < parsed_frames (step throws st ev)"
proof (cases ev)
  case (Connect ws)
  then show ?thesis using assms(2) by (simp add: on_connection_def)
next
  case (Frame ws parsed)
  show ?thesis
  proof (cases "\<exists>fs. parsed = Some (JObj fs) \<and> map_of fs ''type'' = Some (JStr ''register'')")
    case True
    then obtain fs where fs: "parsed = Some (JObj fs)" "map_of fs ''type'' = Some (JStr ''register'')"
      by blast
    show ?thesis using Frame fs assms(2)
      by (auto simp: register_frame quiet_def AList.dom_update less_Suc_eq dest!: key_of_KRef key_of_KRef [OF sym])
  next
    case False
    then have "clients (hub_after (on_message throws st ws parsed)) = clients st"
      by (intro not_register_clients) auto
    then show ?thesis using Frame assms(2) parsed_frames_on_message [of st throws ws parsed]
      by (auto simp: less_le_trans)
  qed
next
  case (Close ws)
  have "parsed_frames (on_close st ws) = parsed_frames st" by (simp add: on_close_def)
  then show ?thesis using Close assms by (auto simp: on_close_clients)
qed

lemma refs_below_run:
  assumes "distinct (map fst (clients st))"
      and "\<forall>n. KRef n \<in> fst ` set (clients st) \<longrightarrow> n < parsed_frames st"
  shows "\<forall>n. KRef n \<in> fst ` set (clients (run throws st evs)) \<longrightarrow>
           n < parsed_frames (run throws st evs)"
  using assms
proof (induction evs arbitrary: st)
  case Nil
  then show ?case by (simp add: run_def)
next
  case (Cons e evs)
  have "\<forall>n. KRef n \<in> fst ` set (clients (run throws (step throws st e) evs)) \<longrightarrow>
           n < parsed_frames (run throws (step throws st e) evs)"
    using Cons.prems by (intro Cons.IH distinct_step refs_below_step)
  then show ?case by (simp add: run_def)
qed

text \<open>
  The identities handed out are new: in a hub that has run from the start, a target that
  is an object or an array is never found.
\<close>

lemma object_target_not_found:
  assumes "\<not> by_value u"
  shows "map_of (clients (run throws init_hub evs))
           (key_of (parsed_frames (run throws init_hub evs)) u) = None"
proof -
  let ?st = "run throws init_hub evs"
  have "\<forall>n. KRef n \<in> fst ` set (clients ?st) \<longrightarrow> n < parsed_frames ?st"
    by (rule refs_below_run) (simp_all add: init_hub_def)
  then have "KRef (parsed_frames ?st) \<notin> fst ` set (clients ?st)" by blast
  moreover have "key_of (parsed_frames ?st) u = KRef (parsed_frames ?st)"
    using assms by (cases u rule: by_value.cases) auto
  ultimately show ?thesis by (simp add: map_of_eq_None_iff)
qed






subsection \<open>The broadcast loop\<close>

lemma forEach_send_delivered:
  "delivered throws (fst (forEach_send throws es text))
     = map (\<lambda>(k, c). (c, text)) (takeWhile (\<lambda>(k, c). \<not> throws c) es)"
proof (induction es)
  case Nil
  show ?case by (simp add: delivered_def)
next
  case (Cons e es)
  obtain k c where e: "e = (k, c)" by (cases e)
  obtain calls err where r: "forEach_send throws es text = (calls, err)"
    by (cases "forEach_send throws es text")
  show ?case using Cons r unfolding e
    by (cases "throws c") (simp_all add: delivered_def)
qed

lemma forEach_send_error:
  "snd (forEach_send throws es text) = None \<longleftrightarrow> (\<forall>c \<in> snd ` set es. \<not> throws c)"
proof (induction es)
  case Nil
  show ?case by simp
next
  case (Cons e es)
  obtain k c where e: "e = (k, c)" by (cases e)
  obtain calls err where r: "forEach_send throws es text = (calls, err)"
    by (cases "forEach_send throws es text")
  show ?case using Cons r unfolding e
    by (cases "throws c") simp_all
qed

lemma forEach_send_all:
  "\<forall>c \<in> snd ` set es. \<not> throws c \<Longrightarrow>
   forEach_send throws es text = (map (\<lambda>(k, c). (c, text)) es, None)"
  by (induction es) auto

lemma delivered_all:
  "\<forall>w \<in> snd ` set xs. \<not> throws w \<Longrightarrow>
   delivered throws (map (\<lambda>(k, w). (w, p)) xs) = map (\<lambda>(k, w). (w, p)) xs"
  unfolding delivered_def by (induction xs) auto

lemma count_pushed:
  "length (filter (\<lambda>(w', p). w' = w) (map (\<lambda>(k, w). (w, q)) xs))
     = length (filter (\<lambda>(k, w'). w' = w) xs)"
  by (induction xs) auto

section \<open>The claims\<close>

subsection \<open>Notification of a created message\<close>

text \<open>
  C1, as the code has it: when a POST of \<^verbatim>\<open>/messages\<close> carries a truthy \<^verbatim>\<open>sender_id\<close>,
  \<^verbatim>\<open>receiver_id\<close> and \<^verbatim>\<open>content\<close>, the store answers and no \<^verbatim>\<open>send\<close> throws, the response
  is 201 and \<open>broadcast\<close> sends the \<^verbatim>\<open>new_message\<close> event once for every entry of
  \<^verbatim>\<open>clients\<close>, in the order of the entries. A connection therefore receives as many
  copies as there are keys it is registered under: one when it holds one key, none when
  it is open and has not registered. The data of the event is the whole created record:
  the next id, the three fields of the request, the clock's \<^verbatim>\<open>created_at\<close> and an
  \<^verbatim>\<open>updated_at\<close> of \<^verbatim>\<open>null\<close>.
\<close>

theorem post_notifies_registered:
  assumes "map_of req_body ''sender_id'' = Some s" and "truthy (Some s)"
      and "map_of req_body ''receiver_id'' = Some r" and "truthy (Some r)"
      and "map_of req_body ''content'' = Some c" and "truthy (Some c)"
      and "alive db"
      and "\<forall>w \<in> snd ` set (clients st). \<not> throws w"
  shows "status (post_messages throws st db timestamp req_body) = 201
       \<and> pushed (post_messages throws st db timestamp req_body)
           = map (\<lambda>(k, w). (w, JObj [(''type'', JStr ''new_message''),
                   (''data'', JObj [(''id'', JNum (of_nat (Suc (message_id db)))),
                                    (''sender_id'', s), (''receiver_id'', r), (''content'', c),
                                    (''created_at'', JStr timestamp), (''updated_at'', JNull)])]))
               (clients st)
       \<and> delivered throws (pushed (post_messages throws st db timestamp req_body))
           = pushed (post_messages throws st db timestamp req_body)
       \<and> length (filter (\<lambda>(w', p). w' = w) (pushed (post_messages throws st db timestamp req_body)))
           = length (filter (\<lambda>(k, w'). w' = w) (clients st))"
proof -
  let ?ev = "[(''type'', JStr ''new_message''),
                   (''data'', JObj [(''id'', JNum (of_nat (Suc (message_id db)))),
                                    (''sender_id'', s), (''receiver_id'', r), (''content'', c),
                                    (''created_at'', JStr timestamp), (''updated_at'', JNull)])]"
  have b: "broadcast throws st ?ev = (map (\<lambda>(k, w). (w, JObj ?ev)) (clients st), None)"
    by (simp only: broadcast_def stringify_defined forEach_send_all [OF assms(8)])
  have st: "status (post_messages throws st db timestamp req_body) = 201"
    and p: "pushed (post_messages throws st db timestamp req_body)
           = map (\<lambda>(k, w). (w, JObj ?ev)) (clients st)"
    using assms(1-7) b
    by (simp_all add: post_messages_def createMessage_def redis_incr_def redis_hmset_def)
  have d: "delivered throws (map (\<lambda>(k, w). (w, JObj ?ev)) (clients st))
      = map (\<lambda>(k, w). (w, JObj ?ev)) (clients st)"
    using assms(8) by (rule delivered_all)
  show ?thesis using st p d by (simp only: count_pushed)
qed

text \<open>
  In \<open>hub_AB\<close> connection 1 holds the keys \<open>A\<close> and \<open>B\<close>, connection 2 holds \<open>u1\<close> and
  connection 3 is open without a key: 1 is sent the event twice, 2 once, 3 never.
\<close>

theorem post_notifies_registered_witness:
  "map_of hi_body ''sender_id'' = Some (JStr ''u1'') \<and> truthy (Some (JStr ''u1''))
   \<and> map_of hi_body ''receiver_id'' = Some (JStr ''u2'') \<and> truthy (Some (JStr ''u2''))
   \<and> map_of hi_body ''content'' = Some (JStr ''hi'') \<and> truthy (Some (JStr ''hi''))
   \<and> alive db0
   \<and> map snd (clients hub_AB) = [1, 2, 1] \<and> \<not> no_throw 1 \<and> \<not> no_throw 2
   \<and> status (post_messages no_throw hub_AB db0 ''2024-01-01T00:00:00.000Z'' hi_body) = 201
   \<and> map fst (pushed (post_messages no_throw hub_AB db0 ''2024-01-01T00:00:00.000Z'' hi_body))
       = [1, 2, 1]
   \<and> set (map snd (pushed (post_messages no_throw hub_AB db0 ''2024-01-01T00:00:00.000Z'' hi_body)))
       = {JObj [(''type'', JStr ''new_message''),
                (''data'', JObj [(''id'', JNum 1), (''sender_id'', JStr ''u1''),
                                 (''receiver_id'', JStr ''u2''), (''content'', JStr ''hi''),
                                 (''created_at'', JStr ''2024-01-01T00:00:00.000Z''),
                                 (''updated_at'', JNull)])]}"
proof -
  have h1: "map_of hi_body ''sender_id'' = Some (JStr ''u1'')" by (simp add: hi_body_def)
  have h2: "truthy (Some (JStr ''u1''))" by simp
  have h3: "map_of hi_body ''receiver_id'' = Some (JStr ''u2'')" by (simp add: hi_body_def)
  have h4: "truthy (Some (JStr ''u2''))" by simp
  have h5: "map_of hi_body ''content'' = Some (JStr ''hi'')" by (simp add: hi_body_def)
  have h6: "truthy (Some (JStr ''hi''))" by simp
  have h7: "alive db0" by (simp add: db0_def)
  have h8: "\<forall>w \<in> snd ` set (clients hub_AB). \<not> no_throw w" by (simp add: no_throw_def)
  have h9: "map snd (clients hub_AB) = [1, 2, 1] \<and> \<not> no_throw 1 \<and> \<not> no_throw 2"
    by (simp add: hub_AB_eq no_throw_def)
  from post_notifies_registered [OF h1 h2 h3 h4 h5 h6 h7 h8, of "''2024-01-01T00:00:00.000Z''"]
       h1 h2 h3 h4 h5 h6 h7 h9
  show ?thesis by (simp add: hub_AB_eq db0_def)
qed

text \<open>
  In \<open>hub_u1\<close> connection 2 is open and has not registered. The POST is answered 201 and
  the only \<^verbatim>\<open>send\<close> goes to connection 1.
\<close>

theorem post_skips_unregistered_counterexample:
  "2 \<in> open_conns hub_u1
   \<and> status (post_messages no_throw hub_u1 db0 ''2024-01-01T00:00:00.000Z'' hi_body) = 201
   \<and> map fst (pushed (post_messages no_throw hub_u1 db0 ''2024-01-01T00:00:00.000Z'' hi_body))
       = [1]"
  by (simp add: hub_u1_eq db0_def hi_body_def post_messages_def createMessage_def
      redis_incr_def redis_hmset_def broadcast_def no_throw_def Let_def)

subsection \<open>A send that throws during a broadcast\<close>

text \<open>
  C2, as the code has it: \<open>broadcast\<close> calls \<^verbatim>\<open>send\<close> on the entries of \<^verbatim>\<open>clients\<close> in
  their order and has no \<^verbatim>\<open>try\<close> of its own. The connections that receive the event are
  those of the entries before the first one whose \<^verbatim>\<open>send\<close> throws; the entries after it
  are not visited. The error leaves \<open>broadcast\<close> exactly when some registered
  connection's \<^verbatim>\<open>send\<close> throws; when none does, every entry receives the event.
\<close>

theorem broadcast_stops_at_first_throw:
  "delivered throws (fst (broadcast throws st data))
     = map (\<lambda>(k, c). (c, JObj data)) (takeWhile (\<lambda>(k, c). \<not> throws c) (clients st))
   \<and> (snd (broadcast throws st data) = None \<longleftrightarrow> (\<forall>c \<in> snd ` set (clients st). \<not> throws c))"
  by (simp only: broadcast_def stringify_defined forEach_send_delivered forEach_send_error)

theorem broadcast_stops_at_first_throw_witness:
  "delivered (throws_on 2) (fst (broadcast (throws_on 2) hub_three deleted_7))
     = [(1, JObj deleted_7)]
   \<and> snd (broadcast (throws_on 2) hub_three deleted_7) \<noteq> None
   \<and> delivered no_throw (fst (broadcast no_throw hub_three deleted_7))
       = [(1, JObj deleted_7), (2, JObj deleted_7), (3, JObj deleted_7)]
   \<and> snd (broadcast no_throw hub_three deleted_7) = None"
  using broadcast_stops_at_first_throw [of "throws_on 2" hub_three deleted_7]
        broadcast_stops_at_first_throw [of no_throw hub_three deleted_7]
  by (simp add: hub_three_eq throws_on_def no_throw_def)

text \<open>
  Three registered connections, the second one's \<^verbatim>\<open>send\<close> throws: the first receives the
  event, the third is never called, and \<open>broadcast\<close> ends with the error.
\<close>

theorem broadcast_isolation_counterexample:
  "broadcast (throws_on 2) hub_three deleted_7
     = ([(1, JObj deleted_7), (2, JObj deleted_7)], Some SendError)
   \<and> delivered (throws_on 2) [(1, JObj deleted_7), (2, JObj deleted_7)] = [(1, JObj deleted_7)]
   \<and> map snd (clients hub_three) = [1, 2, 3]"
  by (simp add: hub_three_eq broadcast_def stringify_defined throws_on_def delivered_def)

subsection \<open>Relaying a signalling frame\<close>

text \<open>
  C3, as the code has it: for a frame of kind offer, answer or candidate whose target has
  an entry in the registry, the router calls \<^verbatim>\<open>send\<close> once, on the target's connection
  and on no other. What it sends has every property of the frame other than \<^verbatim>\<open>sender\<close>
  with its value unchanged, and has \<^verbatim>\<open>sender\<close> equal to the frame's \<^verbatim>\<open>userKey\<close> (and no
  \<^verbatim>\<open>sender\<close> when the frame has no \<^verbatim>\<open>userKey\<close>).
\<close>

theorem relay_forwards_frame:
  assumes "signalling (map_of fs ''type'')"
      and "map_of (clients st) (key_of (parsed_frames st) (map_of fs ''target'')) = Some tc"
      and "distinct (map fst fs)"
  shows "\<exists>out. send_calls (on_message throws st ws (Some (JObj fs))) = [(tc, JObj out)]
           \<and> (\<forall>f. f \<noteq> ''sender'' \<longrightarrow> map_of out f = map_of fs f)
           \<and> map_of out ''sender'' = map_of fs ''userKey''"
proof -
  obtain out where out: "JSON_stringify (spread_sender fs (map_of fs ''userKey'')) = JObj out"
    by (simp add: JSON_stringify_def)
  have "send_calls (on_message throws st ws (Some (JObj fs))) = [(tc, JObj out)]"
    using relay_found [OF assms(1,2)] out by simp
  moreover have "\<forall>f. f \<noteq> ''sender'' \<longrightarrow> map_of out f = map_of fs f"
    using forwarded_field [OF assms(3) out] by simp
  moreover have "map_of out ''sender'' = map_of fs ''userKey''"
    using forwarded_field [OF assms(3) out, of "''sender''"] by simp
  ultimately show ?thesis by blast
qed

theorem relay_forwards_frame_witness:
  "signalling (map_of offer_to_u1 ''type'')
   \<and> map_of (clients hub_u1) (key_of (parsed_frames hub_u1) (map_of offer_to_u1 ''target'')) = Some 1
   \<and> distinct (map fst offer_to_u1)
   \<and> send_calls (on_message no_throw hub_u1 2 (Some (JObj offer_to_u1)))
       = [(1, JObj [(''type'', JStr ''offer''), (''userKey'', JStr ''u2''),
                    (''target'', JStr ''u1''), (''sdp'', JStr ''v=0''), (''sender'', JStr ''u2'')])]"
proof -
  have h1: "signalling (map_of offer_to_u1 ''type'')"
    by (simp add: signalling_def offer_to_u1_def)
  have h2: "map_of (clients hub_u1) (key_of (parsed_frames hub_u1) (map_of offer_to_u1 ''target''))
            = Some 1"
    by (simp add: hub_u1_eq offer_to_u1_def)
  have h3: "distinct (map fst offer_to_u1)"
    by (simp add: offer_to_u1_def)
  have c: "send_calls (on_message no_throw hub_u1 2 (Some (JObj offer_to_u1)))
       = [(1, JObj [(''type'', JStr ''offer''), (''userKey'', JStr ''u2''),
                    (''target'', JStr ''u1''), (''sdp'', JStr ''v=0''), (''sender'', JStr ''u2'')])]"
    by (simp add: hub_u1_eq offer_to_u1_def on_message_def signalling_def
        JSON_stringify_def spread_sender_def)
  from relay_forwards_frame [OF h1 h2 h3, of no_throw 2] h1 h2 h3 c show ?thesis by simp
qed

text \<open>
  A frame that brings a \<^verbatim>\<open>sender\<close> of its own does not keep it: \<open>spoofed_offer\<close> says
  \<open>admin\<close>, what connection 1 is sent says \<open>u2\<close>.
\<close>

theorem relay_passthrough_counterexample:
  "send_calls (on_message no_throw hub_u1 2 (Some (JObj spoofed_offer)))
     = [(1, JObj [(''type'', JStr ''offer''), (''sender'', JStr ''u2''),
                  (''userKey'', JStr ''u2''), (''target'', JStr ''u1'')])]
   \<and> map_of spoofed_offer ''sender'' = Some (JStr ''admin'')"
  by (simp add: hub_u1_eq spoofed_offer_def on_message_def signalling_def
      JSON_stringify_def spread_sender_def)

subsection \<open>Registering a key twice\<close>

text \<open>
  C4: a key \<open>k\<close> that is compared by value (a string, as the spec has it, or any other
  primitive) is registered from connection \<open>c1\<close> and then from connection \<open>c2\<close>. Whatever
  happens afterwards, as long as \<open>k\<close> is not registered once more and \<open>c2\<close> does not
  close, a signalling frame with target \<open>k\<close> makes exactly one call of \<^verbatim>\<open>send\<close>, and that
  call is on \<open>c2\<close>: nothing is sent to \<open>c1\<close>.
\<close>

theorem last_registration_wins:
  assumes "distinct (map fst (clients st))"
      and "by_value k"
      and "map_of r1 ''type'' = Some (JStr ''register'')" and "map_of r1 ''userKey'' = k"
      and "map_of r2 ''type'' = Some (JStr ''register'')" and "map_of r2 ''userKey'' = k"
      and "\<forall>e \<in> set evs. e \<noteq> Close c2 \<and>
             (\<forall>ws r. e = Frame ws (Some (JObj r)) \<longrightarrow> map_of r ''type'' = Some (JStr ''register'')
                \<longrightarrow> map_of r ''userKey'' \<noteq> k)"
      and "signalling (map_of fs ''type'')" and "map_of fs ''target'' = k"
  shows "send_calls (on_message throws
           (run throws st ([Frame c1 (Some (JObj r1)), Frame c2 (Some (JObj r2))] @ evs))
           ws (Some (JObj fs)))
         = [(c2, JSON_stringify (spread_sender fs (map_of fs ''userKey'')))]"
proof -
  let ?st2 = "run throws st [Frame c1 (Some (JObj r1)), Frame c2 (Some (JObj r2))]"
  have d: "distinct (map fst (clients ?st2))"
    using assms(1) by (rule distinct_run)
  have k: "key_of oid k = key_of 0 k" for oid
    using assms(2) by (simp add: key_of_by_value)
  have "clients ?st2 = AList.update (key_of (Suc (parsed_frames st)) k) c2
                         (AList.update (key_of (parsed_frames st) k) c1 (clients st))"
    using assms(3-6) by (simp add: run_def register_frame quiet_def)
  then have "clients ?st2 = AList.update (key_of 0 k) c2 (AList.update (key_of 0 k) c1 (clients st))"
    by (simp only: k [of "parsed_frames st"] k [of "Suc (parsed_frames st)"])
  then have m: "map_of (clients ?st2) (key_of 0 k) = Some c2"
    by (simp add: AList.update_conv')
  let ?st3 = "run throws ?st2 evs"
  have "map_of (clients ?st3) (key_of 0 k) = Some c2"
    using d assms(2) m assms(7) by (rule run_keeps_entry)
  then have "map_of (clients ?st3) (key_of (parsed_frames ?st3) (map_of fs ''target'')) = Some c2"
    by (simp only: assms(9) k [of "parsed_frames ?st3"])
  from relay_found [OF assms(8) this, of throws ws] show ?thesis
    by (simp add: run_def)
qed

theorem last_registration_wins_witness:
  "distinct (map fst (clients init_hub))
   \<and> by_value (Some (JStr ''A''))
   \<and> map_of register_A ''type'' = Some (JStr ''register'')
   \<and> map_of register_A ''userKey'' = Some (JStr ''A'')
   \<and> Close 2 \<notin> set [Frame 1 (Some (JObj register_B)), Close 3]
   \<and> map_of register_B ''userKey'' \<noteq> Some (JStr ''A'')
   \<and> signalling (map_of answer_to_A ''type'')
   \<and> map_of answer_to_A ''target'' = Some (JStr ''A'')
   \<and> send_calls (on_message no_throw
        (run no_throw init_hub
           ([Frame 1 (Some (JObj register_A)), Frame 2 (Some (JObj register_A))]
            @ [Frame 1 (Some (JObj register_B)), Close 3]))
        1 (Some (JObj answer_to_A)))
      = [(2, JObj [(''type'', JStr ''answer''), (''userKey'', JStr ''B''),
                   (''target'', JStr ''A''), (''sender'', JStr ''B'')])]"
proof -
  have h1: "distinct (map fst (clients init_hub))" by (simp add: init_hub_def)
  have h2: "by_value (Some (JStr ''A''))" by simp
  have h3: "map_of register_A ''type'' = Some (JStr ''register'')" by (simp add: register_A_def)
  have h4: "map_of register_A ''userKey'' = Some (JStr ''A'')" by (simp add: register_A_def)
  have h5: "\<forall>e \<in> set [Frame 1 (Some (JObj register_B)), Close 3].
        e \<noteq> Close 2 \<and>
        (\<forall>ws r. e = Frame ws (Some (JObj r)) \<longrightarrow> map_of r ''type'' = Some (JStr ''register'')
           \<longrightarrow> map_of r ''userKey'' \<noteq> Some (JStr ''A''))"
    by (auto simp: register_B_def)
  have h6: "signalling (map_of answer_to_A ''type'')" by (simp add: answer_to_A_def signalling_def)
  have h7: "map_of answer_to_A ''target'' = Some (JStr ''A'')" by (simp add: answer_to_A_def)
  have p: "JSON_stringify (spread_sender answer_to_A (map_of answer_to_A ''userKey''))
      = JObj [(''type'', JStr ''answer''), (''userKey'', JStr ''B''),
                   (''target'', JStr ''A''), (''sender'', JStr ''B'')]"
    by (simp add: answer_to_A_def JSON_stringify_def spread_sender_def)
  have q: "Close 2 \<notin> set [Frame 1 (Some (JObj register_B)), Close 3]
      \<and> map_of register_B ''userKey'' \<noteq> Some (JStr ''A'')"
    by (simp add: register_B_def)
  from last_registration_wins [where throws = no_throw and ws = 1 and ?c1.0 = 1,
         OF h1 h2 h3 h4 h3 h4 h5 h6 h7]
       h1 h2 h3 h4 q h6 h7 p
  show ?thesis by simp
qed

subsection \<open>Keys and connections in the registry\<close>




subsection \<open>A signalling frame for nobody\<close>

text \<open>
  C6: a frame of kind offer, answer or candidate whose target has no entry in the registry
  makes the router call \<^verbatim>\<open>send\<close> on no connection at all (so nothing goes back to the
  sender either), nothing is thrown or logged, and the registry and the set of open
  connections are as before.
\<close>

theorem unregistered_target_dropped:
  assumes "signalling (map_of fs ''type'')"
      and "map_of (clients st) (key_of (parsed_frames st) (map_of fs ''target'')) = None"
  shows "send_calls (on_message throws st ws (Some (JObj fs))) = []
       \<and> logged (on_message throws st ws (Some (JObj fs))) = []
       \<and> clients (hub_after (on_message throws st ws (Some (JObj fs)))) = clients st
       \<and> open_conns (hub_after (on_message throws st ws (Some (JObj fs)))) = open_conns st"
  using relay_not_found [OF assms] by (simp add: quiet_def)

theorem unregistered_target_dropped_witness:
  "signalling (map_of offer_to_u9 ''type'')
   \<and> map_of (clients hub_u1) (key_of (parsed_frames hub_u1) (map_of offer_to_u9 ''target'')) = None
   \<and> send_calls (on_message no_throw hub_u1 2 (Some (JObj offer_to_u9))) = []
   \<and> logged (on_message no_throw hub_u1 2 (Some (JObj offer_to_u9))) = []
   \<and> clients (hub_after (on_message no_throw hub_u1 2 (Some (JObj offer_to_u9))))
       = [(KStr ''u1'', 1)]
   \<and> open_conns (hub_after (on_message no_throw hub_u1 2 (Some (JObj offer_to_u9)))) = {1, 2}"
proof -
  have h1: "signalling (map_of offer_to_u9 ''type'')"
    by (simp add: signalling_def offer_to_u9_def)
  have h2: "map_of (clients hub_u1) (key_of (parsed_frames hub_u1) (map_of offer_to_u9 ''target''))
            = None"
    by (simp add: hub_u1_eq offer_to_u9_def)
  from unregistered_target_dropped [OF h1 h2, of no_throw 2] h1 h2 show ?thesis
    by (simp add: hub_u1_eq)
qed

subsection \<open>Frames that do not parse, frames of another kind\<close>

text \<open>
  C7: a frame that does not parse, or that parses to anything but an object whose
  \<^verbatim>\<open>type\<close> is register, offer, answer or candidate, makes the router call \<^verbatim>\<open>send\<close> on no
  connection; the only errors are the parse error and the TypeError of reading \<^verbatim>\<open>null\<close>,
  both caught and logged inside the handler; the registry and the set of open connections
  are as before.
\<close>

theorem unknown_or_malformed_dropped:
  assumes "\<forall>fs. parsed = Some (JObj fs) \<longrightarrow>
             map_of fs ''type'' \<noteq> Some (JStr ''register'') \<and> \<not> signalling (map_of fs ''type'')"
  shows "send_calls (on_message throws st ws parsed) = []
       \<and> set (logged (on_message throws st ws parsed)) \<subseteq> {SyntaxError, TypeError}
       \<and> clients (hub_after (on_message throws st ws parsed)) = clients st
       \<and> open_conns (hub_after (on_message throws st ws parsed)) = open_conns st"
proof (cases parsed)
  case None
  then show ?thesis by (simp add: on_message_def caught_def)
next
  case (Some pm)
  show ?thesis
  proof (cases pm)
    case (JObj fs)
    with Some assms have "on_message throws st ws parsed
        = quiet (st\<lparr>parsed_frames := Suc (parsed_frames st)\<rparr>)"
      by (simp add: unknown_kind_quiet)
    then show ?thesis by (simp add: quiet_def)
  qed (simp_all add: Some on_message_def caught_def quiet_def)
qed

theorem unknown_or_malformed_dropped_witness:
  "map_of ping_frame ''type'' \<noteq> Some (JStr ''register'')
   \<and> \<not> signalling (map_of ping_frame ''type'')
   \<and> send_calls (on_message no_throw hub_u1 2 (Some (JObj ping_frame))) = []
   \<and> clients (hub_after (on_message no_throw hub_u1 2 (Some (JObj ping_frame))))
       = [(KStr ''u1'', 1)]
   \<and> open_conns (hub_after (on_message no_throw hub_u1 2 (Some (JObj ping_frame)))) = {1, 2}
   \<and> send_calls (on_message no_throw hub_u1 2 None) = []
   \<and> logged (on_message no_throw hub_u1 2 None) = [SyntaxError]
   \<and> clients (hub_after (on_message no_throw hub_u1 2 None)) = [(KStr ''u1'', 1)]
   \<and> open_conns (hub_after (on_message no_throw hub_u1 2 None)) = {1, 2}"
proof -
  have h: "\<forall>fs. Some (JObj ping_frame) = Some (JObj fs) \<longrightarrow>
       map_of fs ''type'' \<noteq> Some (JStr ''register'') \<and> \<not> signalling (map_of fs ''type'')"
    by (auto simp: ping_frame_def signalling_def)
  have n: "\<forall>fs. (None :: json option) = Some (JObj fs) \<longrightarrow>
       map_of fs ''type'' \<noteq> Some (JStr ''register'') \<and> \<not> signalling (map_of fs ''type'')"
    by simp
  have l: "logged (on_message no_throw hub_u1 2 None) = [SyntaxError]"
    by (simp add: on_message_def caught_def)
  have k: "map_of ping_frame ''type'' \<noteq> Some (JStr ''register'')
      \<and> \<not> signalling (map_of ping_frame ''type'')"
    by (simp add: ping_frame_def signalling_def)
  from unknown_or_malformed_dropped [OF h, of no_throw hub_u1 2]
       unknown_or_malformed_dropped [OF n, of no_throw hub_u1 2] k l
  show ?thesis by (simp add: hub_u1_eq)
qed

subsection \<open>Closing a connection\<close>

text \<open>
  C8: when a connection closes, the registry keeps exactly the entries whose connection
  is another one, in their order: every entry of the closing connection is removed,
  under however many keys it had registered, and no other entry changes. When the
  closing connection has no entry the registry is left as it is.
\<close>

theorem close_removes_entries_of_connection:
  assumes "distinct (map fst (clients st))"
  shows "clients (on_close st ws) = filter (\<lambda>(k, c). c \<noteq> ws) (clients st)
       \<and> (ws \<notin> snd ` set (clients st) \<longrightarrow> clients (on_close st ws) = clients st)"
proof -
  have f: "clients (on_close st ws) = filter (\<lambda>(k, c). c \<noteq> ws) (clients st)"
    using assms by (rule on_close_clients)
  have "ws \<notin> snd ` set (clients st) \<Longrightarrow> filter (\<lambda>(k, c). c \<noteq> ws) (clients st) = clients st"
    by (auto simp: filter_id_conv image_iff)
  with f show ?thesis by simp
qed

theorem close_removes_entries_of_connection_witness:
  "distinct (map fst (clients hub_AB))
   \<and> clients (on_close hub_AB 1) = [(KStr ''u1'', 2)]
   \<and> 3 \<notin> snd ` set (clients hub_AB)
   \<and> clients (on_close hub_AB 3) = clients hub_AB"
proof -
  have h: "distinct (map fst (clients hub_AB))" by (simp add: hub_AB_eq)
  have n: "3 \<notin> snd ` set (clients hub_AB)" by (simp add: hub_AB_eq)
  from close_removes_entries_of_connection [OF h, of 1]
       close_removes_entries_of_connection [OF h, of 3] h n
  show ?thesis by (simp add: hub_AB_eq)
qed

subsection \<open>Updating a message\<close>




subsection \<open>The sender of a relayed frame\<close>

text \<open>
  C10: in every frame the router relays to a registered target, \<^verbatim>\<open>sender\<close> is what the
  inbound frame has as \<^verbatim>\<open>userKey\<close>. A \<^verbatim>\<open>sender\<close> that the inbound frame brought along is
  written over; it is never the one that is passed on, unless it equals the \<^verbatim>\<open>userKey\<close>.
\<close>

theorem relay_sender_is_userKey:
  assumes "signalling (map_of fs ''type'')"
      and "map_of (clients st) (key_of (parsed_frames st) (map_of fs ''target'')) = Some tc"
      and "distinct (map fst fs)"
      and "(c, JObj out) \<in> set (send_calls (on_message throws st ws (Some (JObj fs))))"
  shows "map_of out ''sender'' = map_of fs ''userKey''"
proof -
  have "JSON_stringify (spread_sender fs (map_of fs ''userKey'')) = JObj out"
    using relay_found [OF assms(1,2)] assms(4) by simp
  from forwarded_field [OF assms(3) this, of "''sender''"] show ?thesis by simp
qed

theorem relay_sender_is_userKey_witness:
  "signalling (map_of spoofed_offer ''type'')
   \<and> map_of (clients hub_u1) (key_of (parsed_frames hub_u1) (map_of spoofed_offer ''target'')) = Some 1
   \<and> distinct (map fst spoofed_offer)
   \<and> (1, JObj [(''type'', JStr ''offer''), (''sender'', JStr ''u2''),
               (''userKey'', JStr ''u2''), (''target'', JStr ''u1'')])
       \<in> set (send_calls (on_message no_throw hub_u1 2 (Some (JObj spoofed_offer))))
   \<and> map_of spoofed_offer ''sender'' = Some (JStr ''admin'')
   \<and> map_of [(''type'', JStr ''offer''), (''sender'', JStr ''u2''),
              (''userKey'', JStr ''u2''), (''target'', JStr ''u1'')] ''sender''
       = map_of spoofed_offer ''userKey''"
proof -
  have h1: "signalling (map_of spoofed_offer ''type'')"
    by (simp add: signalling_def spoofed_offer_def)
  have h2: "map_of (clients hub_u1) (key_of (parsed_frames hub_u1) (map_of spoofed_offer ''target''))
            = Some 1"
    by (simp add: hub_u1_eq spoofed_offer_def)
  have h3: "distinct (map fst spoofed_offer)"
    by (simp add: spoofed_offer_def)
  have h4: "(1, JObj [(''type'', JStr ''offer''), (''sender'', JStr ''u2''),
               (''userKey'', JStr ''u2''), (''target'', JStr ''u1'')])
       \<in> set (send_calls (on_message no_throw hub_u1 2 (Some (JObj spoofed_offer))))"
    by (simp add: hub_u1_eq spoofed_offer_def on_message_def signalling_def
        JSON_stringify_def spread_sender_def)
  have s: "map_of spoofed_offer ''sender'' = Some (JStr ''admin'')"
    by (simp add: spoofed_offer_def)
  from relay_sender_is_userKey [OF h1 h2 h3 h4] h1 h2 h3 h4 s show ?thesis by simp
qed

end
